theory Spec2Isabelle
  imports Complex_Main "HOL-Library.Multiset"
begin

section \<open>Electric field and potential of point charges (Electric\_Field.py)\<close>

subsection \<open>Floating-point values\<close>

text \<open>
  A numpy float64 entry is a finite number, an infinity or NaN. Finite values carry an
  exact real: rounding and overflow are not part of this model, and the two signed zeros
  are identified (a division by zero takes the divisor as +0). The special values follow
  IEEE 754 as numpy computes them: a nonzero number divided by zero is an infinity, 0/0 is
  NaN, every comparison with NaN is false.
\<close>

datatype fval = Fin real | PInf | NInf | NaN

fun is_finite :: "fval \<Rightarrow> bool" where
  "is_finite (Fin a) = True"
| "is_finite v = False"

fun fneg :: "fval \<Rightarrow> fval" where
  "fneg (Fin a) = Fin (- a)"
| "fneg PInf = NInf"
| "fneg NInf = PInf"
| "fneg NaN = NaN"

fun fadd :: "fval \<Rightarrow> fval \<Rightarrow> fval" where
  "fadd (Fin a) (Fin b) = Fin (a + b)"
| "fadd NaN v = NaN"
| "fadd v NaN = NaN"
| "fadd PInf NInf = NaN"
| "fadd NInf PInf = NaN"
| "fadd PInf v = PInf"
| "fadd NInf v = NInf"
| "fadd (Fin a) v = v"

definition fsub :: "fval \<Rightarrow> fval \<Rightarrow> fval" where
  "fsub a b = fadd a (fneg b)"

text \<open>The sign of a value: \<open>Some True\<close> is negative, \<open>None\<close> is zero or NaN.\<close>

fun fsign :: "fval \<Rightarrow> bool option" where
  "fsign (Fin a) = (if a = 0 then None else Some (a < 0))"
| "fsign PInf = Some False"
| "fsign NInf = Some True"
| "fsign NaN = None"

definition signed_inf :: "bool \<Rightarrow> fval" where
  "signed_inf neg = (if neg then NInf else PInf)"

fun fmul :: "fval \<Rightarrow> fval \<Rightarrow> fval" where
  "fmul (Fin a) (Fin b) = Fin (a * b)"
| "fmul NaN v = NaN"
| "fmul v NaN = NaN"
| "fmul u v = (case (fsign u, fsign v) of
                 (Some s, Some t) \<Rightarrow> signed_inf (s \<noteq> t)
               | _ \<Rightarrow> NaN)"

fun fdiv :: "fval \<Rightarrow> fval \<Rightarrow> fval" where
  "fdiv (Fin a) (Fin b) =
     (if b \<noteq> 0 then Fin (a / b)
      else if a = 0 then NaN
      else signed_inf (a < 0))"
| "fdiv NaN v = NaN"
| "fdiv v NaN = NaN"
| "fdiv (Fin a) v = Fin 0"
| "fdiv u (Fin b) = signed_inf ((u = NInf) \<noteq> (b < 0))"
| "fdiv u v = NaN"

fun fsqrt :: "fval \<Rightarrow> fval" where
  "fsqrt (Fin a) = (if 0 \<le> a then Fin (sqrt a) else NaN)"
| "fsqrt PInf = PInf"
| "fsqrt v = NaN"

fun fless :: "fval \<Rightarrow> fval \<Rightarrow> bool" where
  "fless (Fin a) (Fin b) = (a < b)"
| "fless NaN v = False"
| "fless v NaN = False"
| "fless NInf v = (v \<noteq> NInf)"
| "fless v PInf = (v \<noteq> PInf)"
| "fless u v = False"

subsection \<open>Arrays and the numpy operations the program calls\<close>

text \<open>
  A two-dimensional array is the list of its rows; \<open>A ! i ! j\<close> is numpy's \<open>A[i][j]\<close>.
  Every binary operation of the program meets two arrays of one shape, so the
  elementwise operations pair the entries row by row.
\<close>

type_synonym ndarray = "fval list list"

definition arr_map :: "('a \<Rightarrow> 'b) \<Rightarrow> 'a list list \<Rightarrow> 'b list list" where
  "arr_map f A = map (map f) A"

definition arr_map2 :: "('a \<Rightarrow> 'b \<Rightarrow> 'c) \<Rightarrow> 'a list list \<Rightarrow> 'b list list \<Rightarrow> 'c list list" where
  "arr_map2 f A B = map2 (map2 f) A B"

text \<open>
  \<open>np.linspace(start, stop, num)\<close> with the default \<open>endpoint=True\<close>: no sample for
  \<open>num = 0\<close>, the start alone for \<open>num = 1\<close>, and otherwise \<open>start + i * step\<close> with
  \<open>step = (stop - start) / (num - 1)\<close> for every index but the last, which is set to
  \<open>stop\<close>. A negative \<open>num\<close> raises in numpy; \<open>grid_size\<close> is a count here.
\<close>

definition linspace :: "real \<Rightarrow> real \<Rightarrow> nat \<Rightarrow> fval list" where
  "linspace start stop num =
     (if num = 0 then []
      else if num = 1 then [Fin start]
      else map (\<lambda>i. Fin (start + real i * ((stop - start) / real (num - 1)))) [0..<num - 1]
           @ [Fin stop])"

text \<open>\<open>np.meshgrid(x, y)\<close> with the default \<open>indexing='xy'\<close>: \<open>X[i][j] = x[j]\<close> and
  \<open>Y[i][j] = y[i]\<close>, both of shape \<open>(len(y), len(x))\<close>.\<close>

definition meshgrid :: "fval list \<Rightarrow> fval list \<Rightarrow> ndarray \<times> ndarray" where
  "meshgrid x y = (replicate (length y) x, map (\<lambda>v. replicate (length x) v) y)"

definition shape :: "ndarray \<Rightarrow> nat \<times> nat" where
  "shape A = (length A, case A of [] \<Rightarrow> 0 | row # _ \<Rightarrow> length row)"

definition zeros :: "nat \<times> nat \<Rightarrow> ndarray" where
  "zeros s = replicate (fst s) (replicate (snd s) (Fin 0))"

text \<open>\<open>A - c\<close>, \<open>A ** 2\<close>, \<open>A + B\<close>, \<open>A * B\<close>, \<open>A / B\<close>, \<open>np.sqrt(A)\<close> and \<open>c / A\<close>,
  for arrays \<open>A\<close>, \<open>B\<close> and a Python float \<open>c\<close>.\<close>

definition arr_sub_scalar :: "ndarray \<Rightarrow> real \<Rightarrow> ndarray" where
  "arr_sub_scalar A c = arr_map (\<lambda>v. fsub v (Fin c)) A"

definition arr_square :: "ndarray \<Rightarrow> ndarray" where
  "arr_square A = arr_map (\<lambda>v. fmul v v) A"

definition arr_add :: "ndarray \<Rightarrow> ndarray \<Rightarrow> ndarray" where
  "arr_add A B = arr_map2 fadd A B"

definition arr_mul :: "ndarray \<Rightarrow> ndarray \<Rightarrow> ndarray" where
  "arr_mul A B = arr_map2 fmul A B"

definition arr_div :: "ndarray \<Rightarrow> ndarray \<Rightarrow> ndarray" where
  "arr_div A B = arr_map2 fdiv A B"

definition arr_sqrt :: "ndarray \<Rightarrow> ndarray" where
  "arr_sqrt A = arr_map fsqrt A"

definition scalar_div_arr :: "real \<Rightarrow> ndarray \<Rightarrow> ndarray" where
  "scalar_div_arr c A = arr_map (\<lambda>v. fdiv (Fin c) v) A"

text \<open>The masked assignment \<open>A[A < c] = c\<close>: every entry below \<open>c\<close> becomes \<open>c\<close>,
  every other entry (NaN too) stays.\<close>

definition assign_where_less :: "ndarray \<Rightarrow> real \<Rightarrow> ndarray" where
  "assign_where_less A c = arr_map (\<lambda>v. if fless v (Fin c) then Fin c else v) A"

subsection \<open>The charges and the field evaluator\<close>

text \<open>A charge is the dictionary \<open>{'q': q, 'x': x, 'y': y}\<close> that the sidebar builds from
  its three bounded inputs: three Python floats.\<close>

record charge =
  charge_q :: real
  charge_x :: real
  charge_y :: real

definition k :: real where
  "k = 8990000000"

text \<open>The body of \<open>for charge in charges\<close>, on the values of the arrays: \<open>X\<close> and \<open>Y\<close>
  are read, \<open>Ex\<close>, \<open>Ey\<close> and \<open>V\<close> are accumulated into (\<open>Ex\<close> is a constant of
  HOL, so the two field arrays are written \<open>E_x\<close> and \<open>E_y\<close>).\<close>

definition charge_step :: "ndarray \<Rightarrow> ndarray \<Rightarrow> charge \<Rightarrow> ndarray \<times> ndarray \<times> ndarray
    \<Rightarrow> ndarray \<times> ndarray \<times> ndarray" where
  "charge_step X Y charge acc =
     (case acc of (E_x, E_y, V) \<Rightarrow>
      let q = charge_q charge;
          xc = charge_x charge;
          yc = charge_y charge;
          dx = arr_sub_scalar X xc;
          dy = arr_sub_scalar Y yc;
          r2 = arr_add (arr_square dx) (arr_square dy);
          r = arr_sqrt r2;
          r = assign_where_less r (1 / 10);
          r2 = assign_where_less r2 (1 / 100);
          E_mag = scalar_div_arr (k * q) r2;
          E_x = arr_add E_x (arr_mul E_mag (arr_div dx r));
          E_y = arr_add E_y (arr_mul E_mag (arr_div dy r));
          V = arr_add V (scalar_div_arr (k * q) r)
      in (E_x, E_y, V))"

definition calculate_field_and_potential :: "charge list \<Rightarrow> nat \<Rightarrow> real
    \<Rightarrow> ndarray \<times> ndarray \<times> ndarray \<times> ndarray \<times> ndarray" where
  "calculate_field_and_potential charges grid_size range_val =
     (let x = linspace (- range_val) range_val grid_size;
          y = linspace (- range_val) range_val grid_size;
          (X, Y) = meshgrid x y;
          E_x = zeros (shape X);
          E_y = zeros (shape Y);
          V = zeros (shape X);
          (E_x, E_y, V) = fold (charge_step X Y) charges (E_x, E_y, V)
      in (X, Y, E_x, E_y, V))"

text \<open>The five returned arrays, one by one.\<close>

definition grid_X :: "charge list \<Rightarrow> nat \<Rightarrow> real \<Rightarrow> ndarray" where
  "grid_X cs G R = (case calculate_field_and_potential cs G R of (X, Y, E_x, E_y, V) \<Rightarrow> X)"

definition grid_Y :: "charge list \<Rightarrow> nat \<Rightarrow> real \<Rightarrow> ndarray" where
  "grid_Y cs G R = (case calculate_field_and_potential cs G R of (X, Y, E_x, E_y, V) \<Rightarrow> Y)"

definition field_Ex :: "charge list \<Rightarrow> nat \<Rightarrow> real \<Rightarrow> ndarray" where
  "field_Ex cs G R = (case calculate_field_and_potential cs G R of (X, Y, E_x, E_y, V) \<Rightarrow> E_x)"

definition field_Ey :: "charge list \<Rightarrow> nat \<Rightarrow> real \<Rightarrow> ndarray" where
  "field_Ey cs G R = (case calculate_field_and_potential cs G R of (X, Y, E_x, E_y, V) \<Rightarrow> E_y)"

definition potential_V :: "charge list \<Rightarrow> nat \<Rightarrow> real \<Rightarrow> ndarray" where
  "potential_V cs G R = (case calculate_field_and_potential cs G R of (X, Y, E_x, E_y, V) \<Rightarrow> V)"

subsection \<open>The field evaluator on a heap of Python objects\<close>

text \<open>
  The same function once more, now with the objects it touches: the caller's list of
  dictionaries, and the numpy arrays, which the function allocates and then updates in
  place (\<open>r[r < 0.1] = 0.1\<close>, \<open>Ex += ...\<close>). The heap is the list of all objects, an
  address is an index into it, and a new object goes to the end. Objects are never freed
  here: the arrays of an earlier iteration stay where they are.
\<close>

type_synonym addr = nat

datatype pyobj = NDArray ndarray | Vector "fval list" | Dict charge | PyList "addr list"

type_synonym heap = "pyobj list"

datatype error = TypeError | IndexError | InvalidReference

text \<open>\<open>InvalidReference\<close> is no Python exception: it stands for an address that names no
  object, which a Python program cannot hold.\<close>

definition lookup :: "heap \<Rightarrow> addr \<Rightarrow> pyobj option" where
  "lookup h a = (if a < length h then Some (h ! a) else None)"

definition alloc :: "heap \<Rightarrow> pyobj \<Rightarrow> addr \<times> heap" where
  "alloc h obj = (length h, h @ [obj])"

text \<open>The array a local name is bound to. The names \<open>x\<close>, \<open>y\<close>, \<open>X\<close>, ..., \<open>E_mag\<close> are only
  ever bound to arrays the function has created itself.\<close>

definition array_at :: "heap \<Rightarrow> addr \<Rightarrow> ndarray" where
  "array_at h a = (case lookup h a of Some (NDArray A) \<Rightarrow> A | _ \<Rightarrow> [])"

definition vector_at :: "heap \<Rightarrow> addr \<Rightarrow> fval list" where
  "vector_at h a = (case lookup h a of Some (Vector v) \<Rightarrow> v | _ \<Rightarrow> [])"

text \<open>An in-place update of the array at an address: the object keeps its address.\<close>

definition assign_in_place :: "heap \<Rightarrow> addr \<Rightarrow> ndarray \<Rightarrow> heap" where
  "assign_in_place h a A = (case lookup h a of Some (NDArray B) \<Rightarrow> h[a := NDArray A] | _ \<Rightarrow> h)"

definition charge_body :: "heap \<Rightarrow> addr \<Rightarrow> addr \<Rightarrow> addr \<Rightarrow> addr \<Rightarrow> addr \<Rightarrow> charge \<Rightarrow> heap" where
  "charge_body h X Y E_x E_y V charge =
     (let q = charge_q charge;
          xc = charge_x charge;
          yc = charge_y charge;
          (dx, h) = alloc h (NDArray (arr_sub_scalar (array_at h X) xc));
          (dy, h) = alloc h (NDArray (arr_sub_scalar (array_at h Y) yc));
          (r2, h) = alloc h (NDArray (arr_add (arr_square (array_at h dx))
                                             (arr_square (array_at h dy))));
          (r, h) = alloc h (NDArray (arr_sqrt (array_at h r2)));
          h = assign_in_place h r (assign_where_less (array_at h r) (1 / 10));
          h = assign_in_place h r2 (assign_where_less (array_at h r2) (1 / 100));
          (E_mag, h) = alloc h (NDArray (scalar_div_arr (k * q) (array_at h r2)));
          h = assign_in_place h E_x (arr_add (array_at h E_x)
                (arr_mul (array_at h E_mag) (arr_div (array_at h dx) (array_at h r))));
          h = assign_in_place h E_y (arr_add (array_at h E_y)
                (arr_mul (array_at h E_mag) (arr_div (array_at h dy) (array_at h r))));
          h = assign_in_place h V (arr_add (array_at h V)
                (scalar_div_arr (k * q) (array_at h r)))
      in h)"

text \<open>
  \<open>for charge in charges\<close> over the items of the list, each read when its turn comes.
  \<open>charge['q']\<close> on an item that is no dictionary raises: TypeError on a list, IndexError
  on an array or one of its entries.
\<close>

fun charge_loop :: "heap \<Rightarrow> addr \<Rightarrow> addr \<Rightarrow> addr \<Rightarrow> addr \<Rightarrow> addr \<Rightarrow> addr list
    \<Rightarrow> error option \<times> heap" where
  "charge_loop h X Y E_x E_y V [] = (None, h)"
| "charge_loop h X Y E_x E_y V (a # as) =
     (case lookup h a of
        Some (Dict charge) \<Rightarrow> charge_loop (charge_body h X Y E_x E_y V charge) X Y E_x E_y V as
      | Some (PyList items) \<Rightarrow> (Some TypeError, h)
      | Some (NDArray A) \<Rightarrow> (Some IndexError, h)
      | Some (Vector v) \<Rightarrow> (Some IndexError, h)
      | None \<Rightarrow> (Some InvalidReference, h))"

text \<open>
  The function returns the addresses of its five arrays, or the error it raised, and the
  heap it leaves. Iterating over something that is no list: an empty array gives no
  iteration at all, a nonempty one yields rows or numbers and a dictionary yields its keys,
  on which \<open>charge['q']\<close> raises.
\<close>

definition calculate_field_and_potential_heap :: "heap \<Rightarrow> addr \<Rightarrow> nat \<Rightarrow> real
    \<Rightarrow> (error + addr \<times> addr \<times> addr \<times> addr \<times> addr) \<times> heap" where
  "calculate_field_and_potential_heap h charges grid_size range_val =
     (let (x, h) = alloc h (Vector (linspace (- range_val) range_val grid_size));
          (y, h) = alloc h (Vector (linspace (- range_val) range_val grid_size));
          (X, h) = alloc h (NDArray (fst (meshgrid (vector_at h x) (vector_at h y))));
          (Y, h) = alloc h (NDArray (snd (meshgrid (vector_at h x) (vector_at h y))));
          (E_x, h) = alloc h (NDArray (zeros (shape (array_at h X))));
          (E_y, h) = alloc h (NDArray (zeros (shape (array_at h Y))));
          (V, h) = alloc h (NDArray (zeros (shape (array_at h X))))
      in case lookup h charges of
           Some (PyList items) \<Rightarrow>
             (case charge_loop h X Y E_x E_y V items of
                (None, h) \<Rightarrow> (Inr (X, Y, E_x, E_y, V), h)
              | (Some e, h) \<Rightarrow> (Inl e, h))
         | Some (Dict charge) \<Rightarrow> (Inl TypeError, h)
         | Some (NDArray A) \<Rightarrow> (if A = [] then Inr (X, Y, E_x, E_y, V) else Inl IndexError, h)
         | Some (Vector v) \<Rightarrow> (if v = [] then Inr (X, Y, E_x, E_y, V) else Inl IndexError, h)
         | None \<Rightarrow> (Inl InvalidReference, h))"


text \<open>What a caller holding a reference to a list of charges reads from the heap, and the
  values of the arrays behind the returned addresses.\<close>

definition dict_at :: "heap \<Rightarrow> addr \<Rightarrow> charge option" where
  "dict_at h a = (case lookup h a of Some (Dict c) \<Rightarrow> Some c | _ \<Rightarrow> None)"

definition read_charges :: "heap \<Rightarrow> addr \<Rightarrow> charge list option" where
  "read_charges h a =
     (case lookup h a of Some (PyList items) \<Rightarrow> those (map (dict_at h) items) | _ \<Rightarrow> None)"

definition outputs :: "(error + addr \<times> addr \<times> addr \<times> addr \<times> addr) \<times> heap
    \<Rightarrow> error + ndarray \<times> ndarray \<times> ndarray \<times> ndarray \<times> ndarray" where
  "outputs res =
     (case res of
        (Inl e, h) \<Rightarrow> Inl e
      | (Inr (X, Y, E_x, E_y, V), h) \<Rightarrow>
          Inr (array_at h X, array_at h Y, array_at h E_x, array_at h E_y, array_at h V))"


subsection \<open>The sidebar's charge inputs\<close>

text \<open>
  A streamlit input widget returns the value the user set under its key, and its default
  while the user has set none. The keys \<open>q_i\<close>, \<open>x_i\<close>, \<open>y_i\<close> are a name and the loop
  index \<open>i\<close>, which counts from 0 (the label shows \<open>i + 1\<close>). The interface keeps every value
  between the widget's bounds.
\<close>

type_synonym widget_state = "string \<times> nat \<rightharpoonup> real"

definition slider :: "widget_state \<Rightarrow> string \<times> nat \<Rightarrow> real \<Rightarrow> real \<Rightarrow> real \<Rightarrow> real" where
  "slider st key lo hi dflt = (case st key of None \<Rightarrow> dflt | Some v \<Rightarrow> v)"

definition number_input :: "widget_state \<Rightarrow> string \<times> nat \<Rightarrow> real \<Rightarrow> real \<Rightarrow> real \<Rightarrow> real" where
  "number_input st key lo hi dflt = (case st key of None \<Rightarrow> dflt | Some v \<Rightarrow> v)"

definition default_x :: "nat \<Rightarrow> real" where
  "default_x i = (if i = 0 then - 2 else (if i = 1 then 2 else 0))"

definition default_q :: "nat \<Rightarrow> real" where
  "default_q i = (if i = 0 then 1 else (if i = 1 then - 1 else 1))"

text \<open>The loop \<open>for i in range(num_charges)\<close> that appends one dictionary per charge.\<close>

definition charges :: "widget_state \<Rightarrow> nat \<Rightarrow> charge list" where
  "charges st num_charges =
     map (\<lambda>i. let q = slider st (''q'', i) (- 5) 5 (default_q i);
                  x = number_input st (''x'', i) (- 5) 5 (default_x i);
                  y = number_input st (''y'', i) (- 5) 5 0
              in \<lparr>charge_q = q, charge_x = x, charge_y = y\<rparr>) [0..<num_charges]"

subsection \<open>The algorithm as the specification words it\<close>

text \<open>
  The specification's field evaluator, on real numbers: \<open>G\<close> linearly spaced samples over
  \<open>[-R, R]\<close>, their Cartesian product as the mesh, for each charge its own clamped
  contribution at a point, and at every point the sum of the contributions of all charges.
\<close>

definition spec_samples :: "nat \<Rightarrow> real \<Rightarrow> real list" where
  "spec_samples G R = map (\<lambda>i. - R + real i * (2 * R / real (G - 1))) [0..<G]"

definition spec_mesh :: "nat \<Rightarrow> real \<Rightarrow> (real \<times> real) list list" where
  "spec_mesh G R = map (\<lambda>py. map (\<lambda>px. (px, py)) (spec_samples G R)) (spec_samples G R)"

definition spec_contribution :: "charge \<Rightarrow> real \<times> real \<Rightarrow> real \<times> real \<times> real" where
  "spec_contribution c p =
     (let dx = fst p - charge_x c;
          dy = snd p - charge_y c;
          r2 = dx\<^sup>2 + dy\<^sup>2;
          r = sqrt r2;
          r = max r (1 / 10);
          r2 = max r2 (1 / 100);
          E_mag = k * charge_q c / r2
      in (E_mag * (dx / r), E_mag * (dy / r), k * charge_q c / r))"

definition spec_field_sample :: "charge list \<Rightarrow> real \<times> real \<Rightarrow> real \<times> real \<times> real" where
  "spec_field_sample cs p =
     (\<Sum>c\<leftarrow>cs. fst (spec_contribution c p),
      \<Sum>c\<leftarrow>cs. fst (snd (spec_contribution c p)),
      \<Sum>c\<leftarrow>cs. snd (snd (spec_contribution c p)))"


section \<open>Properties\<close>

subsection \<open>The evaluator in closed form\<close>

lemma map2_map_same:
  "map2 f (map g xs) (map h xs) = map (\<lambda>x. f (g x) (h x)) xs"
  by (induction xs) simp_all

lemma arr_map2_same:
  "arr_map2 f (arr_map g P) (arr_map h P) = arr_map (\<lambda>p. f (g p) (h p)) P"
  by (simp add: arr_map2_def arr_map_def map2_map_same)

lemma arr_map_arr_map: "arr_map f (arr_map g P) = arr_map (\<lambda>p. f (g p)) P"
  by (simp add: arr_map_def comp_def)

lemma linspace_samples: "linspace (- R) R G = map Fin (spec_samples G R)"
proof -
  consider "G = 0" | "G = 1" | "2 \<le> G" by linarith
  then show ?thesis
  proof cases
    case 1 then show ?thesis by (simp add: linspace_def spec_samples_def)
  next
    case 2 then show ?thesis by (simp add: linspace_def spec_samples_def)
  next
    case 3
    then obtain n where G: "G = Suc (Suc n)" by (metis Suc_le_D numeral_2_eq_2 Suc_le_mono)
    have "- R + real (Suc n) * (2 * R / real (Suc n)) = R" by simp
    then show ?thesis
      by (simp add: linspace_def spec_samples_def G)
  qed
qed


lemma meshgrid_spec_mesh:
  "meshgrid (map Fin (spec_samples G R)) (map Fin (spec_samples G R)) =
     (arr_map (\<lambda>p. Fin (fst p)) (spec_mesh G R), arr_map (\<lambda>p. Fin (snd p)) (spec_mesh G R))"
  by (simp add: meshgrid_def arr_map_def spec_mesh_def comp_def map_replicate_const)

lemma length_spec_samples: "length (spec_samples G R) = G"
  by (simp add: spec_samples_def)

lemma shape_rows:
  "shape (map (\<lambda>y. map (g y) xs) xs) = (length xs, length xs)"
  by (cases xs) (simp_all add: shape_def)

lemma shape_mesh:
  "shape (arr_map f (spec_mesh G R)) = (G, G)"
  using shape_rows [of "\<lambda>py px. f (px, py)" "spec_samples G R"]
  by (simp add: arr_map_def spec_mesh_def comp_def length_spec_samples)

lemma zeros_mesh: "zeros (G, G) = arr_map (\<lambda>p. Fin 0) (spec_mesh G R)"
  by (simp add: zeros_def arr_map_def spec_mesh_def comp_def map_replicate_const
      length_spec_samples)

lemma clamp_r:
  "0 \<le> s \<Longrightarrow>
   (if fless (fsqrt (Fin s)) (Fin (1 / 10)) then Fin (1 / 10) else fsqrt (Fin s)) =
     Fin (max (sqrt s) (1 / 10))"
  by (simp add: max_def)

lemma clamp_r2:
  "(if fless (Fin s) (Fin (1 / 100)) then Fin (1 / 100) else Fin s) = Fin (max s (1 / 100))"
  by (simp add: max_def)

lemma fdiv_clamped:
  "fdiv (Fin a) (Fin (max s (1 / 10))) = Fin (a / max s (1 / 10))"
  "fdiv (Fin a) (Fin (max s (1 / 100))) = Fin (a / max s (1 / 100))"
  by (simp_all add: max_def)

text \<open>Without the clamp the division at a grid point on a charge would be \<open>0 / 0\<close>, and a
  potential there \<open>k * q / 0\<close>.\<close>

lemma unclamped_division:
  "fdiv (Fin 0) (fsqrt (Fin 0)) = NaN" "fdiv (Fin 1) (fsqrt (Fin 0)) = PInf"
  by (simp_all add: signed_inf_def)

lemma point_contribution:
  fixes c :: charge and p :: "real \<times> real"
  defines "dx \<equiv> fsub (Fin (fst p)) (Fin (charge_x c))"
    and "dy \<equiv> fsub (Fin (snd p)) (Fin (charge_y c))"
  defines "r2 \<equiv> fadd (fmul dx dx) (fmul dy dy)"
  defines "r \<equiv> (if fless (fsqrt r2) (Fin (1 / 10)) then Fin (1 / 10) else fsqrt r2)"
    and "r2c \<equiv> (if fless r2 (Fin (1 / 100)) then Fin (1 / 100) else r2)"
  shows "fmul (fdiv (Fin (k * charge_q c)) r2c) (fdiv dx r) = Fin (fst (spec_contribution c p))"
    and "fmul (fdiv (Fin (k * charge_q c)) r2c) (fdiv dy r) = Fin (fst (snd (spec_contribution c p)))"
    and "fdiv (Fin (k * charge_q c)) r = Fin (snd (snd (spec_contribution c p)))"
proof -
  let ?s = "(fst p - charge_x c)\<^sup>2 + (snd p - charge_y c)\<^sup>2"
  have dx: "dx = Fin (fst p - charge_x c)" and dy: "dy = Fin (snd p - charge_y c)"
    by (simp_all add: dx_def dy_def fsub_def)
  have r2: "r2 = Fin ?s" by (simp add: r2_def dx dy power2_eq_square)
  have s: "0 \<le> ?s" by simp
  have r: "r = Fin (max (sqrt ?s) (1 / 10))"
    unfolding r_def r2 by (rule clamp_r [OF s])
  have r2c: "r2c = Fin (max ?s (1 / 100))"
    unfolding r2c_def r2 by (rule clamp_r2)
  show "fmul (fdiv (Fin (k * charge_q c)) r2c) (fdiv dx r) = Fin (fst (spec_contribution c p))"
    unfolding r r2c dx fdiv_clamped by (simp add: spec_contribution_def Let_def)
  show "fmul (fdiv (Fin (k * charge_q c)) r2c) (fdiv dy r) = Fin (fst (snd (spec_contribution c p)))"
    unfolding r r2c dy fdiv_clamped by (simp add: spec_contribution_def Let_def)
  show "fdiv (Fin (k * charge_q c)) r = Fin (snd (snd (spec_contribution c p)))"
    unfolding r fdiv_clamped by (simp add: spec_contribution_def Let_def)
qed

lemma charge_step_mesh:
  "charge_step (arr_map (\<lambda>p. Fin (fst p)) P) (arr_map (\<lambda>p. Fin (snd p)) P) c
      (arr_map (\<lambda>p. Fin (a p)) P, arr_map (\<lambda>p. Fin (b p)) P, arr_map (\<lambda>p. Fin (v p)) P) =
   (arr_map (\<lambda>p. Fin (a p + fst (spec_contribution c p))) P,
    arr_map (\<lambda>p. Fin (b p + fst (snd (spec_contribution c p)))) P,
    arr_map (\<lambda>p. Fin (v p + snd (snd (spec_contribution c p)))) P)"
  by (simp add: charge_step_def Let_def arr_sub_scalar_def arr_square_def arr_add_def
      arr_mul_def arr_div_def arr_sqrt_def scalar_div_arr_def assign_where_less_def
      arr_map_arr_map arr_map2_same point_contribution del: fless.simps fsqrt.simps)

lemma fold_charge_step_mesh:
  "fold (charge_step (arr_map (\<lambda>p. Fin (fst p)) P) (arr_map (\<lambda>p. Fin (snd p)) P)) cs
      (arr_map (\<lambda>p. Fin (a p)) P, arr_map (\<lambda>p. Fin (b p)) P, arr_map (\<lambda>p. Fin (v p)) P) =
   (arr_map (\<lambda>p. Fin (a p + fst (spec_field_sample cs p))) P,
    arr_map (\<lambda>p. Fin (b p + fst (snd (spec_field_sample cs p)))) P,
    arr_map (\<lambda>p. Fin (v p + snd (snd (spec_field_sample cs p)))) P)"
proof (induction cs arbitrary: a b v)
  case Nil
  then show ?case by (simp add: spec_field_sample_def)
next
  case (Cons c cs)
  show ?case
    by (simp add: charge_step_mesh Cons.IH) (simp add: spec_field_sample_def add.assoc)
qed

lemma calculate_mesh:
  "calculate_field_and_potential cs G R =
     (arr_map (\<lambda>p. Fin (fst p)) (spec_mesh G R),
      arr_map (\<lambda>p. Fin (snd p)) (spec_mesh G R),
      arr_map (\<lambda>p. Fin (fst (spec_field_sample cs p))) (spec_mesh G R),
      arr_map (\<lambda>p. Fin (fst (snd (spec_field_sample cs p)))) (spec_mesh G R),
      arr_map (\<lambda>p. Fin (snd (snd (spec_field_sample cs p)))) (spec_mesh G R))"
  using fold_charge_step_mesh [of "spec_mesh G R" cs "\<lambda>p. 0" "\<lambda>p. 0" "\<lambda>p. 0"]
  by (simp add: calculate_field_and_potential_def Let_def linspace_samples meshgrid_spec_mesh
      shape_mesh zeros_mesh [of G R])
lemma nth_mesh:
  "i < G \<Longrightarrow> j < G \<Longrightarrow>
   arr_map f (spec_mesh G R) ! i ! j = f (spec_samples G R ! j, spec_samples G R ! i)"
  by (simp add: arr_map_def spec_mesh_def length_spec_samples)

lemma grid_X_mesh: "grid_X cs G R = arr_map (\<lambda>p. Fin (fst p)) (spec_mesh G R)"
  by (simp add: grid_X_def calculate_mesh)

lemma grid_Y_mesh: "grid_Y cs G R = arr_map (\<lambda>p. Fin (snd p)) (spec_mesh G R)"
  by (simp add: grid_Y_def calculate_mesh)

lemma field_Ex_mesh:
  "field_Ex cs G R = arr_map (\<lambda>p. Fin (fst (spec_field_sample cs p))) (spec_mesh G R)"
  by (simp add: field_Ex_def calculate_mesh)

lemma field_Ey_mesh:
  "field_Ey cs G R = arr_map (\<lambda>p. Fin (fst (snd (spec_field_sample cs p)))) (spec_mesh G R)"
  by (simp add: field_Ey_def calculate_mesh)

lemma potential_V_mesh:
  "potential_V cs G R = arr_map (\<lambda>p. Fin (snd (snd (spec_field_sample cs p)))) (spec_mesh G R)"
  by (simp add: potential_V_def calculate_mesh)

lemmas mesh_simps = grid_X_mesh grid_Y_mesh field_Ex_mesh field_Ey_mesh potential_V_mesh

lemma spec_field_sample_mset:
  "mset cs' = mset cs \<Longrightarrow> spec_field_sample cs' p = spec_field_sample cs p"
proof -
  assume m: "mset cs' = mset cs"
  have "\<And>f :: charge \<Rightarrow> real. (\<Sum>c\<leftarrow>cs'. f c) = (\<Sum>c\<leftarrow>cs. f c)"
  proof -
    fix f :: "charge \<Rightarrow> real"
    have "mset (map f cs') = mset (map f cs)" using m by (metis mset_map)
    then show "(\<Sum>c\<leftarrow>cs'. f c) = (\<Sum>c\<leftarrow>cs. f c)" by (metis sum_mset_sum_list)
  qed
  then show ?thesis by (simp add: spec_field_sample_def)
qed

lemma spec_field_sample_insert:
  "spec_field_sample (cs1 @ c # cs2) p =
     (fst (spec_field_sample (cs1 @ cs2) p) + fst (spec_contribution c p),
      fst (snd (spec_field_sample (cs1 @ cs2) p)) + fst (snd (spec_contribution c p)),
      snd (snd (spec_field_sample (cs1 @ cs2) p)) + snd (snd (spec_contribution c p)))"
  by (simp add: spec_field_sample_def)

lemma zero_charge_contribution: "charge_q c = 0 \<Longrightarrow> spec_contribution c p = (0, 0, 0)"
  by (simp add: spec_contribution_def Let_def)

lemma potential_contribution:
  "snd (snd (spec_contribution c p)) =
     k * charge_q c / max (sqrt ((fst p - charge_x c)\<^sup>2 + (snd p - charge_y c)\<^sup>2)) (1 / 10)"
  by (simp add: spec_contribution_def Let_def)

lemma grid_point:
  assumes "i < G" "j < G"
  shows "grid_X cs G R ! i ! j = Fin px \<longleftrightarrow> spec_samples G R ! j = px"
    and "grid_Y cs G R ! i ! j = Fin py \<longleftrightarrow> spec_samples G R ! i = py"
  using assms by (simp_all add: mesh_simps nth_mesh)

lemma sample_at_1_of_3: "spec_samples 3 R ! Suc 0 = 0"
  by (simp add: spec_samples_def)

lemma sample_at_2_of_3: "spec_samples 3 R ! 2 = R"
  by (simp add: spec_samples_def)

subsection \<open>The field evaluator\<close>


text \<open>
  Claim C2. At every grid point \<open>(i, j)\<close>, for every charge list, the entries of \<open>Ex\<close>,
  \<open>Ey\<close> and \<open>V\<close> are finite: neither an infinity nor NaN, also where the point lies on a
  charge or within 0.1 of it.
\<close>

theorem outputs_finite:
  "i < G \<Longrightarrow> j < G \<Longrightarrow>
   is_finite (field_Ex cs G R ! i ! j) \<and> is_finite (field_Ey cs G R ! i ! j) \<and>
   is_finite (potential_V cs G R ! i ! j)"
  by (simp add: mesh_simps nth_mesh)

text \<open>An instance: the grid point \<open>(0, 0)\<close> of the 3 by 3 grid over \<open>[-5, 5]\<close>, on which a charge sits.\<close>

theorem outputs_finite_witness:
  "is_finite (field_Ex [\<lparr>charge_q = 1, charge_x = 0, charge_y = 0\<rparr>] 3 5 ! 1 ! 1) \<and>
   is_finite (field_Ey [\<lparr>charge_q = 1, charge_x = 0, charge_y = 0\<rparr>] 3 5 ! 1 ! 1) \<and>
   is_finite (potential_V [\<lparr>charge_q = 1, charge_x = 0, charge_y = 0\<rparr>] 3 5 ! 1 ! 1)"
  using outputs_finite [of 1 3 1 "[\<lparr>charge_q = 1, charge_x = 0, charge_y = 0\<rparr>]" 5] by simp

text \<open>
  Claim C3. For two equal and opposite charges, \<open>q\<close> at \<open>(x1, y1)\<close> and \<open>-q\<close> at
  \<open>(x2, y2)\<close>, the potential at a grid point that is the midpoint of the two charges is
  exactly zero.
\<close>

theorem dipole_midpoint_potential_zero:
  assumes "charge_q c2 = - charge_q c1" and "i < G" and "j < G"
    and "grid_X [c1, c2] G R ! i ! j = Fin ((charge_x c1 + charge_x c2) / 2)"
    and "grid_Y [c1, c2] G R ! i ! j = Fin ((charge_y c1 + charge_y c2) / 2)"
  shows "potential_V [c1, c2] G R ! i ! j = Fin 0"
proof -
  let ?px = "(charge_x c1 + charge_x c2) / 2" and ?py = "(charge_y c1 + charge_y c2) / 2"
  have px: "spec_samples G R ! j = ?px" and py: "spec_samples G R ! i = ?py"
    using assms by (simp_all add: grid_point)
  have "(?px - charge_x c1)\<^sup>2 = (?px - charge_x c2)\<^sup>2"
    and "(?py - charge_y c1)\<^sup>2 = (?py - charge_y c2)\<^sup>2"
    by (simp_all add: power2_eq_square field_simps)
  then have "snd (snd (spec_contribution c1 (?px, ?py))) + snd (snd (spec_contribution c2 (?px, ?py))) = 0"
    by (simp add: potential_contribution assms(1))
  then show ?thesis
    using assms(2,3) by (simp add: mesh_simps nth_mesh px py spec_field_sample_def)
qed

theorem dipole_midpoint_potential_zero_witness:
  "potential_V [\<lparr>charge_q = 1, charge_x = - 2, charge_y = 0\<rparr>,
                \<lparr>charge_q = - 1, charge_x = 2, charge_y = 0\<rparr>] 3 5 ! 1 ! 1 = Fin 0"
  using dipole_midpoint_potential_zero [of "\<lparr>charge_q = - 1, charge_x = 2, charge_y = 0\<rparr>"
      "\<lparr>charge_q = 1, charge_x = - 2, charge_y = 0\<rparr>" 1 3 1 5]
  by (simp add: grid_point spec_samples_def)

text \<open>
  Claim C4. The order of the charges is irrelevant: a permutation of the charge list gives
  the same five arrays.
\<close>

theorem permutation_invariant:
  "mset cs' = mset cs \<Longrightarrow>
   calculate_field_and_potential cs' G R = calculate_field_and_potential cs G R"
  by (simp add: calculate_mesh spec_field_sample_mset [of cs' cs])

theorem permutation_invariant_witness:
  "calculate_field_and_potential [\<lparr>charge_q = - 1, charge_x = 2, charge_y = 0\<rparr>, \<lparr>charge_q = 1, charge_x = - 2, charge_y = 0\<rparr>] 3 5 =
   calculate_field_and_potential [\<lparr>charge_q = 1, charge_x = - 2, charge_y = 0\<rparr>, \<lparr>charge_q = - 1, charge_x = 2, charge_y = 0\<rparr>] 3 5"
  using permutation_invariant [of "[\<lparr>charge_q = - 1, charge_x = 2, charge_y = 0\<rparr>, \<lparr>charge_q = 1, charge_x = - 2, charge_y = 0\<rparr>]" "[\<lparr>charge_q = 1, charge_x = - 2, charge_y = 0\<rparr>, \<lparr>charge_q = - 1, charge_x = 2, charge_y = 0\<rparr>]" 3 5]
  by simp

text \<open>
  Claim C5. A charge of magnitude \<open>q = 0\<close> contributes nothing: with it or without it,
  anywhere in the list, the returned arrays are the same.
\<close>

theorem zero_charge_neutral:
  "charge_q c = 0 \<Longrightarrow>
   calculate_field_and_potential (cs1 @ c # cs2) G R =
   calculate_field_and_potential (cs1 @ cs2) G R"
  by (simp add: calculate_mesh spec_field_sample_insert zero_charge_contribution)

theorem zero_charge_neutral_witness:
  "calculate_field_and_potential [\<lparr>charge_q = 1, charge_x = - 2, charge_y = 0\<rparr>, \<lparr>charge_q = 0, charge_x = 1, charge_y = 1\<rparr>, \<lparr>charge_q = - 1, charge_x = 2, charge_y = 0\<rparr>] 3 5 =
   calculate_field_and_potential [\<lparr>charge_q = 1, charge_x = - 2, charge_y = 0\<rparr>, \<lparr>charge_q = - 1, charge_x = 2, charge_y = 0\<rparr>] 3 5"
  using zero_charge_neutral [of "\<lparr>charge_q = 0, charge_x = 1, charge_y = 1\<rparr>" "[\<lparr>charge_q = 1, charge_x = - 2, charge_y = 0\<rparr>]" "[\<lparr>charge_q = - 1, charge_x = 2, charge_y = 0\<rparr>]" 3 5]
  by simp

text \<open>
  Claim C6. For a single positive charge \<open>q\<close> at the origin, the potential at a grid point
  at distance \<open>r \<ge> 0.1\<close> from the origin is \<open>k * q / r\<close>, and the potential decreases with
  the distance: strictly from one such point to a farther one, and never increasing between
  any two grid points (below 0.1 the clamp keeps it constant).
\<close>

theorem single_charge_potential:
  assumes "charge_x c = 0" and "charge_y c = 0" and "0 < charge_q c"
    and "i < G" and "j < G" and "i' < G" and "j' < G"
    and "grid_X [c] G R ! i ! j = Fin px" and "grid_Y [c] G R ! i ! j = Fin py"
    and "grid_X [c] G R ! i' ! j' = Fin px'" and "grid_Y [c] G R ! i' ! j' = Fin py'"
  shows "(1 / 10 \<le> sqrt (px\<^sup>2 + py\<^sup>2) \<longrightarrow>
            potential_V [c] G R ! i ! j = Fin (k * charge_q c / sqrt (px\<^sup>2 + py\<^sup>2))) \<and>
         (1 / 10 \<le> sqrt (px\<^sup>2 + py\<^sup>2) \<and> sqrt (px\<^sup>2 + py\<^sup>2) < sqrt (px'\<^sup>2 + py'\<^sup>2) \<longrightarrow>
            fless (potential_V [c] G R ! i' ! j') (potential_V [c] G R ! i ! j)) \<and>
         (sqrt (px\<^sup>2 + py\<^sup>2) \<le> sqrt (px'\<^sup>2 + py'\<^sup>2) \<longrightarrow>
            \<not> fless (potential_V [c] G R ! i ! j) (potential_V [c] G R ! i' ! j'))"
proof -
  let ?r = "sqrt (px\<^sup>2 + py\<^sup>2)" and ?r' = "sqrt (px'\<^sup>2 + py'\<^sup>2)"
  have kq: "0 < k * charge_q c" using assms(3) by (simp add: k_def)
  have p: "spec_samples G R ! j = px" "spec_samples G R ! i = py"
    and p': "spec_samples G R ! j' = px'" "spec_samples G R ! i' = py'"
    using assms by (simp_all add: grid_point)
  have V: "potential_V [c] G R ! i ! j = Fin (k * charge_q c / max ?r (1 / 10))"
    using assms(4,5)
    by (simp add: mesh_simps nth_mesh p spec_field_sample_def potential_contribution assms(1,2))
  have V': "potential_V [c] G R ! i' ! j' = Fin (k * charge_q c / max ?r' (1 / 10))"
    using assms(6,7)
    by (simp add: mesh_simps nth_mesh p' spec_field_sample_def potential_contribution assms(1,2))
  have pos: "0 < max ?r (1 / 10)" "0 < max ?r' (1 / 10)" by simp_all
  have a: "1 / 10 \<le> ?r \<Longrightarrow> potential_V [c] G R ! i ! j = Fin (k * charge_q c / ?r)"
    by (simp add: V max_def)
  have b: "fless (potential_V [c] G R ! i' ! j') (potential_V [c] G R ! i ! j)"
    if "1 / 10 \<le> ?r" "?r < ?r'"
  proof -
    have "max ?r (1 / 10) < max ?r' (1 / 10)" using that by linarith
    then have "k * charge_q c / max ?r' (1 / 10) < k * charge_q c / max ?r (1 / 10)"
      using kq pos by (simp add: divide_strict_left_mono)
    then show ?thesis by (simp add: V V')
  qed
  have c: "\<not> fless (potential_V [c] G R ! i ! j) (potential_V [c] G R ! i' ! j')"
    if "?r \<le> ?r'"
  proof -
    have "max ?r (1 / 10) \<le> max ?r' (1 / 10)" using that by linarith
    then have "k * charge_q c / max ?r' (1 / 10) \<le> k * charge_q c / max ?r (1 / 10)"
      using kq pos by (simp add: divide_left_mono)
    then show ?thesis by (simp add: V V' not_less)
  qed
  show ?thesis using a b c by blast
qed

text \<open>An instance: the grid points \<open>(5, 0)\<close> and \<open>(5, 5)\<close> of the 3 by 3 grid over
  \<open>[-5, 5]\<close>, at distances 5 and \<open>sqrt 50\<close> from the charge.\<close>

theorem single_charge_potential_witness:
  "potential_V [\<lparr>charge_q = 1, charge_x = 0, charge_y = 0\<rparr>] 3 5 ! 1 ! 2 = Fin (k * 1 / 5) \<and>
   fless (potential_V [\<lparr>charge_q = 1, charge_x = 0, charge_y = 0\<rparr>] 3 5 ! 2 ! 2) (potential_V [\<lparr>charge_q = 1, charge_x = 0, charge_y = 0\<rparr>] 3 5 ! 1 ! 2)"
proof -
  have s: "sqrt 25 = 5" using real_sqrt_abs [of 5] by simp
  have lt: "5 < sqrt 50" using real_sqrt_less_iff [of 25 50] s by simp
  show ?thesis
    using single_charge_potential [of "\<lparr>charge_q = 1, charge_x = 0, charge_y = 0\<rparr>" 1 3 2 2 2 5 5 0 5 5]
    by (auto simp add: grid_point sample_at_1_of_3 sample_at_2_of_3 s lt)
qed



subsection \<open>The evaluator on the heap\<close>

lemma lookup_append1: "lookup (h @ [obj]) a = (if a = length h then Some obj else lookup h a)"
  by (auto simp add: lookup_def nth_append)

lemma length_assign_in_place: "length (assign_in_place h a A) = length h"
  by (simp add: assign_in_place_def split: option.split pyobj.split)

lemma lookup_assign_in_place:
  "lookup (assign_in_place h a A) b =
     (if b = a then (case lookup h a of Some (NDArray B) \<Rightarrow> Some (NDArray A) | other \<Rightarrow> other)
      else lookup h b)"
  by (auto simp add: assign_in_place_def lookup_def split: option.split pyobj.split)

lemmas heap_simps = lookup_append1 length_assign_in_place lookup_assign_in_place

lemma charge_body_props:
  fixes h :: heap and c :: charge and X Y E_x E_y V n :: addr
  shows "(n \<le> length h \<and> n \<le> E_x \<and> n \<le> E_y \<and> n \<le> V \<longrightarrow>
           length h \<le> length (charge_body h X Y E_x E_y V c) \<and>
           (\<forall>a<n. lookup (charge_body h X Y E_x E_y V c) a = lookup h a))"
proof -
  define h1 where "h1 = h @ [NDArray (arr_sub_scalar (array_at h X) (charge_x c))]"
  define h2 where "h2 = h1 @ [NDArray (arr_sub_scalar (array_at h1 Y) (charge_y c))]"
  define h3 where "h3 = h2 @ [NDArray (arr_add (arr_square (array_at h2 (length h)))
                                         (arr_square (array_at h2 (length h1))))]"
  define h4 where "h4 = h3 @ [NDArray (arr_sqrt (array_at h3 (length h2)))]"
  define h5 where "h5 = assign_in_place h4 (length h3) (assign_where_less (array_at h4 (length h3)) (1 / 10))"
  define h6 where "h6 = assign_in_place h5 (length h2) (assign_where_less (array_at h5 (length h2)) (1 / 100))"
  define h7 where "h7 = h6 @ [NDArray (scalar_div_arr (k * charge_q c) (array_at h6 (length h2)))]"
  define h8 where "h8 = assign_in_place h7 E_x (arr_add (array_at h7 E_x)
                (arr_mul (array_at h7 (length h6)) (arr_div (array_at h7 (length h)) (array_at h7 (length h3)))))"
  define h9 where "h9 = assign_in_place h8 E_y (arr_add (array_at h8 E_y)
                (arr_mul (array_at h8 (length h6)) (arr_div (array_at h8 (length h1)) (array_at h8 (length h3)))))"
  define h10 where "h10 = assign_in_place h9 V (arr_add (array_at h9 V)
                (scalar_div_arr (k * charge_q c) (array_at h9 (length h3))))"
  have steps: "charge_body h X Y E_x E_y V c = h10"
    unfolding charge_body_def h10_def h9_def h8_def h7_def h6_def h5_def h4_def h3_def h2_def h1_def
      Let_def alloc_def prod.case
    by (rule refl)
  have len: "length h1 = length h + 1" "length h2 = length h + 2" "length h3 = length h + 3"
    "length h4 = length h + 4" "length h5 = length h + 4" "length h6 = length h + 4"
    "length h7 = length h + 5" "length h8 = length h + 5" "length h9 = length h + 5"
    "length h10 = length h + 5"
    by (simp_all add: h10_def h9_def h8_def h7_def h6_def h5_def h4_def h3_def h2_def h1_def
        length_assign_in_place)
  have frame: "lookup h10 a = lookup h a"
    if b: "n \<le> length h" "n \<le> E_x" "n \<le> E_y" "n \<le> V" and a: "a < n" for a
  proof -
    have "lookup h1 a = lookup h a" using a b by (simp add: h1_def lookup_append1)
    moreover have "lookup h2 a = lookup h1 a" using a b by (simp add: h2_def lookup_append1 len)
    moreover have "lookup h3 a = lookup h2 a" using a b by (simp add: h3_def lookup_append1 len)
    moreover have "lookup h4 a = lookup h3 a" using a b by (simp add: h4_def lookup_append1 len)
    moreover have "lookup h5 a = lookup h4 a" using a b by (simp add: h5_def heap_simps len)
    moreover have "lookup h6 a = lookup h5 a" using a b by (simp add: h6_def heap_simps len)
    moreover have "lookup h7 a = lookup h6 a" using a b by (simp add: h7_def lookup_append1 len)
    moreover have "lookup h8 a = lookup h7 a" using a b by (simp add: h8_def heap_simps)
    moreover have "lookup h9 a = lookup h8 a" using a b by (simp add: h9_def heap_simps)
    moreover have "lookup h10 a = lookup h9 a" using a b by (simp add: h10_def heap_simps)
    ultimately show ?thesis by simp
  qed
  show ?thesis
    unfolding steps using frame by (simp add: len)
qed

lemma charge_body_effect:
  fixes h :: heap and c :: charge and X Y E_x E_y V :: addr
  assumes b: "X < length h" "Y < length h" "E_x < length h" "E_y < length h" "V < length h"
    and d: "E_x \<noteq> E_y" "E_x \<noteq> V" "E_y \<noteq> V" "X \<noteq> E_x" "X \<noteq> E_y" "X \<noteq> V"
      "Y \<noteq> E_x" "Y \<noteq> E_y" "Y \<noteq> V"
    and l: "lookup h X = Some (NDArray AX)" "lookup h Y = Some (NDArray AY)"
      "lookup h E_x = Some (NDArray A1)" "lookup h E_y = Some (NDArray A2)"
      "lookup h V = Some (NDArray A3)"
  shows "lookup (charge_body h X Y E_x E_y V c) X = Some (NDArray AX) \<and>
         lookup (charge_body h X Y E_x E_y V c) Y = Some (NDArray AY) \<and>
         (case charge_step AX AY c (A1, A2, A3) of
            (B1, B2, B3) \<Rightarrow>
              lookup (charge_body h X Y E_x E_y V c) E_x = Some (NDArray B1) \<and>
              lookup (charge_body h X Y E_x E_y V c) E_y = Some (NDArray B2) \<and>
              lookup (charge_body h X Y E_x E_y V c) V = Some (NDArray B3))"
proof -
  define DX where "DX = arr_sub_scalar AX (charge_x c)"
  define DY where "DY = arr_sub_scalar AY (charge_y c)"
  define R2 where "R2 = arr_add (arr_square DX) (arr_square DY)"
  define R where "R = arr_sqrt R2"
  define Rc where "Rc = assign_where_less R (1 / 10)"
  define R2c where "R2c = assign_where_less R2 (1 / 100)"
  define EM where "EM = scalar_div_arr (k * charge_q c) R2c"
  define B1 where "B1 = arr_add A1 (arr_mul EM (arr_div DX Rc))"
  define B2 where "B2 = arr_add A2 (arr_mul EM (arr_div DY Rc))"
  define B3 where "B3 = arr_add A3 (scalar_div_arr (k * charge_q c) Rc)"
  have cs: "charge_step AX AY c (A1, A2, A3) = (B1, B2, B3)"
    by (simp add: charge_step_def Let_def B1_def B2_def B3_def EM_def R2c_def Rc_def R_def
        R2_def DY_def DX_def)
  define h1 where "h1 = h @ [NDArray (arr_sub_scalar (array_at h X) (charge_x c))]"
  define h2 where "h2 = h1 @ [NDArray (arr_sub_scalar (array_at h1 Y) (charge_y c))]"
  define h3 where "h3 = h2 @ [NDArray (arr_add (arr_square (array_at h2 (length h)))
                                         (arr_square (array_at h2 (length h1))))]"
  define h4 where "h4 = h3 @ [NDArray (arr_sqrt (array_at h3 (length h2)))]"
  define h5 where "h5 = assign_in_place h4 (length h3) (assign_where_less (array_at h4 (length h3)) (1 / 10))"
  define h6 where "h6 = assign_in_place h5 (length h2) (assign_where_less (array_at h5 (length h2)) (1 / 100))"
  define h7 where "h7 = h6 @ [NDArray (scalar_div_arr (k * charge_q c) (array_at h6 (length h2)))]"
  define h8 where "h8 = assign_in_place h7 E_x (arr_add (array_at h7 E_x)
                (arr_mul (array_at h7 (length h6)) (arr_div (array_at h7 (length h)) (array_at h7 (length h3)))))"
  define h9 where "h9 = assign_in_place h8 E_y (arr_add (array_at h8 E_y)
                (arr_mul (array_at h8 (length h6)) (arr_div (array_at h8 (length h1)) (array_at h8 (length h3)))))"
  define h10 where "h10 = assign_in_place h9 V (arr_add (array_at h9 V)
                (scalar_div_arr (k * charge_q c) (array_at h9 (length h3))))"
  have steps: "charge_body h X Y E_x E_y V c = h10"
    unfolding charge_body_def h10_def h9_def h8_def h7_def h6_def h5_def h4_def h3_def h2_def h1_def
      Let_def alloc_def prod.case
    by (rule refl)
  note hs = array_at_def heap_simps d d [THEN not_sym] l
  have len: "length h1 = length h + 1" "length h2 = length h + 2" "length h3 = length h + 3"
    "length h4 = length h + 4" "length h5 = length h + 4" "length h6 = length h + 4"
    "length h7 = length h + 5" "length h8 = length h + 5" "length h9 = length h + 5"
    by (simp_all add: h9_def h8_def h7_def h6_def h5_def h4_def h3_def h2_def h1_def
        length_assign_in_place)
  have old1: "lookup h1 a = lookup h a" if "a < length h" for a
    using that by (simp add: h1_def lookup_append1)
  have e1: "lookup h1 (length h) = Some (NDArray DX)"
    using b by (simp add: h1_def DX_def hs)
  have old2: "lookup h2 a = lookup h a" if "a < length h" for a
    using that by (simp add: h2_def lookup_append1 len old1)
  have e2: "lookup h2 (length h) = Some (NDArray DX)" "lookup h2 (Suc (length h)) = Some (NDArray DY)"
    using b by (simp_all add: h2_def DY_def hs len old1 e1)
  have old3: "lookup h3 a = lookup h a" if "a < length h" for a
    using that by (simp add: h3_def lookup_append1 len old2)
  have e3: "lookup h3 (length h) = Some (NDArray DX)" "lookup h3 (Suc (length h)) = Some (NDArray DY)"
    "lookup h3 (Suc (Suc (length h))) = Some (NDArray R2)"
    by (simp_all add: h3_def R2_def hs len e2)
  have old4: "lookup h4 a = lookup h a" if "a < length h" for a
    using that by (simp add: h4_def lookup_append1 len old3)
  have e4: "lookup h4 (length h) = Some (NDArray DX)" "lookup h4 (Suc (length h)) = Some (NDArray DY)"
    "lookup h4 (Suc (Suc (length h))) = Some (NDArray R2)" "lookup h4 (length h + 3) = Some (NDArray R)"
    by (simp_all add: h4_def R_def hs len e3)
  have old5: "lookup h5 a = lookup h a" if "a < length h" for a
    using that by (simp add: h5_def heap_simps len old4)
  have e5: "lookup h5 (length h) = Some (NDArray DX)" "lookup h5 (Suc (length h)) = Some (NDArray DY)"
    "lookup h5 (Suc (Suc (length h))) = Some (NDArray R2)" "lookup h5 (length h + 3) = Some (NDArray Rc)"
    by (simp_all add: h5_def Rc_def hs len e4)
  have old6: "lookup h6 a = lookup h a" if "a < length h" for a
    using that by (simp add: h6_def heap_simps len old5)
  have e6: "lookup h6 (length h) = Some (NDArray DX)" "lookup h6 (Suc (length h)) = Some (NDArray DY)"
    "lookup h6 (Suc (Suc (length h))) = Some (NDArray R2c)" "lookup h6 (length h + 3) = Some (NDArray Rc)"
    by (simp_all add: h6_def R2c_def hs len e5)
  have old7: "lookup h7 a = lookup h a" if "a < length h" for a
    using that by (simp add: h7_def lookup_append1 len old6)
  have e7: "lookup h7 (length h) = Some (NDArray DX)" "lookup h7 (Suc (length h)) = Some (NDArray DY)"
    "lookup h7 (length h + 3) = Some (NDArray Rc)" "lookup h7 (length h + 4) = Some (NDArray EM)"
    by (simp_all add: h7_def EM_def hs len e6)
  have f8: "lookup h8 X = Some (NDArray AX)" "lookup h8 Y = Some (NDArray AY)"
    "lookup h8 E_x = Some (NDArray B1)" "lookup h8 E_y = Some (NDArray A2)"
    "lookup h8 V = Some (NDArray A3)"
    "lookup h8 (Suc (length h)) = Some (NDArray DY)"
    "lookup h8 (length h + 3) = Some (NDArray Rc)" "lookup h8 (length h + 4) = Some (NDArray EM)"
    using b by (simp_all add: h8_def B1_def hs len e7 old7)
  have f9: "lookup h9 X = Some (NDArray AX)" "lookup h9 Y = Some (NDArray AY)"
    "lookup h9 E_x = Some (NDArray B1)" "lookup h9 E_y = Some (NDArray B2)"
    "lookup h9 V = Some (NDArray A3)"
    "lookup h9 (length h + 3) = Some (NDArray Rc)"
    using b by (simp_all add: h9_def B2_def hs len f8)
  have f10: "lookup h10 X = Some (NDArray AX)" "lookup h10 Y = Some (NDArray AY)"
    "lookup h10 E_x = Some (NDArray B1)" "lookup h10 E_y = Some (NDArray B2)"
    "lookup h10 V = Some (NDArray B3)"
    using b by (simp_all add: h10_def B3_def hs len f9)
  show ?thesis
    unfolding steps cs by (simp add: f10)
qed

lemma lookup_Some_less: "lookup h a = Some obj \<Longrightarrow> a < length h"
  by (simp add: lookup_def split: if_splits)

lemma charge_loop_frame:
  "n \<le> length h \<Longrightarrow> n \<le> E_x \<Longrightarrow> n \<le> E_y \<Longrightarrow> n \<le> V \<Longrightarrow>
   length h \<le> length (snd (charge_loop h X Y E_x E_y V items)) \<and>
   (\<forall>a<n. lookup (snd (charge_loop h X Y E_x E_y V items)) a = lookup h a)"
proof (induction items arbitrary: h)
  case Nil
  then show ?case by simp
next
  case (Cons a items)
  show ?case
  proof (cases "lookup h a")
    case None
    then show ?thesis by simp
  next
    case (Some obj)
    show ?thesis
    proof (cases obj)
      case (Dict c)
      let ?h = "charge_body h X Y E_x E_y V c"
      from charge_body_props [of n h E_x E_y V X Y c] Cons.prems
      have p: "length h \<le> length ?h" "\<forall>a<n. lookup ?h a = lookup h a" by simp_all
      then have "n \<le> length ?h" using Cons.prems by simp
      from Cons.IH [OF this Cons.prems(2,3,4)] p
      show ?thesis by (simp add: Some Dict)
    qed (simp_all add: Some)
  qed
qed

lemma those_map_Some: "those (map f xs) = Some ys \<longleftrightarrow> map f xs = map Some ys"
proof (induction xs arbitrary: ys)
  case Nil
  then show ?case by auto
next
  case (Cons x xs)
  then show ?case by (cases ys) (auto split: option.splits)
qed

lemma charge_loop_effect:
  assumes "map (dict_at h) items = map Some cs"
    and "\<forall>a\<in>set items. a < n" and "n \<le> E_x" "n \<le> E_y" "n \<le> V"
    and "E_x \<noteq> E_y" "E_x \<noteq> V" "E_y \<noteq> V" "X \<noteq> E_x" "X \<noteq> E_y" "X \<noteq> V"
      "Y \<noteq> E_x" "Y \<noteq> E_y" "Y \<noteq> V"
    and "lookup h X = Some (NDArray AX)" "lookup h Y = Some (NDArray AY)"
      "lookup h E_x = Some (NDArray A1)" "lookup h E_y = Some (NDArray A2)"
      "lookup h V = Some (NDArray A3)"
  shows "fst (charge_loop h X Y E_x E_y V items) = None \<and>
         lookup (snd (charge_loop h X Y E_x E_y V items)) X = Some (NDArray AX) \<and>
         lookup (snd (charge_loop h X Y E_x E_y V items)) Y = Some (NDArray AY) \<and>
         (case fold (charge_step AX AY) cs (A1, A2, A3) of
            (B1, B2, B3) \<Rightarrow>
              lookup (snd (charge_loop h X Y E_x E_y V items)) E_x = Some (NDArray B1) \<and>
              lookup (snd (charge_loop h X Y E_x E_y V items)) E_y = Some (NDArray B2) \<and>
              lookup (snd (charge_loop h X Y E_x E_y V items)) V = Some (NDArray B3))"
  using assms
proof (induction items arbitrary: h cs A1 A2 A3)
  case Nil
  then show ?case by simp
next
  case (Cons a items)
  from Cons.prems(1) obtain c cs' where cs: "cs = c # cs'" and c: "dict_at h a = Some c"
    and rest: "map (dict_at h) items = map Some cs'"
    by (cases cs) auto
  from c have la: "lookup h a = Some (Dict c)"
    by (simp add: dict_at_def split: option.splits pyobj.splits)
  let ?h = "charge_body h X Y E_x E_y V c"
  obtain B1 B2 B3 where B: "charge_step AX AY c (A1, A2, A3) = (B1, B2, B3)"
    by (cases "charge_step AX AY c (A1, A2, A3)") auto
  have lt: "X < length h" "Y < length h" "E_x < length h" "E_y < length h" "V < length h"
    using Cons.prems(15-19) by (simp_all add: lookup_Some_less)
  from charge_body_effect [OF lt Cons.prems(6-19), of c] B
  have eff: "lookup ?h X = Some (NDArray AX)" "lookup ?h Y = Some (NDArray AY)"
    "lookup ?h E_x = Some (NDArray B1)" "lookup ?h E_y = Some (NDArray B2)"
    "lookup ?h V = Some (NDArray B3)"
    by simp_all
  have "n \<le> length h" using Cons.prems(3) lt(3) by simp
  with charge_body_props [of n h E_x E_y V X Y c] Cons.prems(3-5)
  have fr: "\<forall>a<n. lookup ?h a = lookup h a" by simp
  have "map (dict_at ?h) items = map (dict_at h) items"
    using fr Cons.prems(2) by (simp add: dict_at_def)
  then have rest': "map (dict_at ?h) items = map Some cs'" using rest by simp
  have small: "\<forall>a\<in>set items. a < n" using Cons.prems(2) by simp
  from Cons.IH [OF rest' small Cons.prems(3-14) eff]
  show ?case by (simp add: la cs B)
qed

lemma calculate_heap_main:
  fixes h :: heap and a :: addr and G :: nat and R :: real
  shows "(\<forall>b<length h. lookup (snd (calculate_field_and_potential_heap h a G R)) b = lookup h b) \<and>
         (\<forall>cs. read_charges h a = Some cs \<longrightarrow>
            outputs (calculate_field_and_potential_heap h a G R) =
              Inr (calculate_field_and_potential cs G R))"
proof -
  define xs where "xs = linspace (- R) R G"
  define MX where "MX = fst (meshgrid xs xs)"
  define MY where "MY = snd (meshgrid xs xs)"
  define g1 where "g1 = h @ [Vector (linspace (- R) R G)]"
  define g2 where "g2 = g1 @ [Vector (linspace (- R) R G)]"
  define g3 where "g3 = g2 @ [NDArray (fst (meshgrid (vector_at g2 (length h)) (vector_at g2 (length g1))))]"
  define g4 where "g4 = g3 @ [NDArray (snd (meshgrid (vector_at g3 (length h)) (vector_at g3 (length g1))))]"
  define g5 where "g5 = g4 @ [NDArray (zeros (shape (array_at g4 (length g2))))]"
  define g6 where "g6 = g5 @ [NDArray (zeros (shape (array_at g5 (length g3))))]"
  define g7 where "g7 = g6 @ [NDArray (zeros (shape (array_at g6 (length g2))))]"
  define res where "res = (Inr (length g2, length g3, length g4, length g5, length g6)
    :: error + addr \<times> addr \<times> addr \<times> addr \<times> addr)"
  have steps: "calculate_field_and_potential_heap h a G R =
     (case lookup g7 a of
        Some (PyList items) \<Rightarrow>
          (case charge_loop g7 (length g2) (length g3) (length g4) (length g5) (length g6) items of
             (None, h) \<Rightarrow> (res, h)
           | (Some e, h) \<Rightarrow> (Inl e, h))
      | Some (Dict charge) \<Rightarrow> (Inl TypeError, g7)
      | Some (NDArray A) \<Rightarrow> (if A = [] then res else Inl IndexError, g7)
      | Some (Vector v) \<Rightarrow> (if v = [] then res else Inl IndexError, g7)
      | None \<Rightarrow> (Inl InvalidReference, g7))"
    unfolding calculate_field_and_potential_heap_def res_def g7_def g6_def g5_def g4_def g3_def
      g2_def g1_def Let_def alloc_def prod.case
    by (rule refl)
  have len: "length g1 = length h + 1" "length g2 = length h + 2" "length g3 = length h + 3"
    "length g4 = length h + 4" "length g5 = length h + 5" "length g6 = length h + 6"
    "length g7 = length h + 7"
    by (simp_all add: g7_def g6_def g5_def g4_def g3_def g2_def g1_def)
  note hs = array_at_def vector_at_def lookup_append1 len
  have old1: "lookup g1 b = lookup h b" if "b < length h" for b
    using that by (simp add: g1_def hs)
  have old2: "lookup g2 b = lookup h b" if "b < length h" for b
    using that by (simp add: g2_def hs old1)
  have old3: "lookup g3 b = lookup h b" if "b < length h" for b
    using that by (simp add: g3_def lookup_append1 len old2)
  have old4: "lookup g4 b = lookup h b" if "b < length h" for b
    using that by (simp add: g4_def lookup_append1 len old3)
  have old5: "lookup g5 b = lookup h b" if "b < length h" for b
    using that by (simp add: g5_def lookup_append1 len old4)
  have old6: "lookup g6 b = lookup h b" if "b < length h" for b
    using that by (simp add: g6_def lookup_append1 len old5)
  have old7: "lookup g7 b = lookup h b" if "b < length h" for b
    using that by (simp add: g7_def lookup_append1 len old6)
  have e1: "lookup g1 (length h) = Some (Vector xs)"
    by (simp add: g1_def xs_def hs)
  have e2: "lookup g2 (length h) = Some (Vector xs)" "lookup g2 (Suc (length h)) = Some (Vector xs)"
    by (simp_all add: g2_def xs_def hs e1)
  have e3: "lookup g3 (length h) = Some (Vector xs)" "lookup g3 (Suc (length h)) = Some (Vector xs)"
    "lookup g3 (Suc (Suc (length h))) = Some (NDArray MX)"
    by (simp_all add: g3_def MX_def hs e2)
  have e4: "lookup g4 (Suc (Suc (length h))) = Some (NDArray MX)"
    "lookup g4 (length h + 3) = Some (NDArray MY)"
    by (simp_all add: g4_def MY_def hs e3)
  have e5: "lookup g5 (Suc (Suc (length h))) = Some (NDArray MX)"
    "lookup g5 (length h + 3) = Some (NDArray MY)"
    "lookup g5 (length h + 4) = Some (NDArray (zeros (shape MX)))"
    by (simp_all add: g5_def hs e4)
  have e6: "lookup g6 (Suc (Suc (length h))) = Some (NDArray MX)"
    "lookup g6 (length h + 3) = Some (NDArray MY)"
    "lookup g6 (length h + 4) = Some (NDArray (zeros (shape MX)))"
    "lookup g6 (length h + 5) = Some (NDArray (zeros (shape MY)))"
    by (simp_all add: g6_def hs e5)
  have e7: "lookup g7 (length g2) = Some (NDArray MX)"
    "lookup g7 (length g3) = Some (NDArray MY)"
    "lookup g7 (length g4) = Some (NDArray (zeros (shape MX)))"
    "lookup g7 (length g5) = Some (NDArray (zeros (shape MY)))"
    "lookup g7 (length g6) = Some (NDArray (zeros (shape MX)))"
    by (simp_all add: g7_def hs e6)
  have frame: "lookup (snd (calculate_field_and_potential_heap h a G R)) b = lookup h b"
    if b: "b < length h" for b
  proof -
    have "length h \<le> length g7" "length h \<le> length g4" "length h \<le> length g5"
      "length h \<le> length g6"
      by (simp_all add: len)
    from charge_loop_frame [OF this, of "length g2" "length g3"] b
    have "lookup (snd (charge_loop g7 (length g2) (length g3) (length g4) (length g5)
        (length g6) items)) b = lookup g7 b" for items
      by simp
    moreover have "snd (calculate_field_and_potential_heap h a G R) =
        (case lookup g7 a of
           Some (PyList items) \<Rightarrow>
             snd (charge_loop g7 (length g2) (length g3) (length g4) (length g5) (length g6) items)
         | _ \<Rightarrow> g7)"
      unfolding steps by (simp split: option.split pyobj.split prod.split)
    ultimately show ?thesis
      using old7 [OF b] by (simp split: option.split pyobj.split)
  qed
  have effect: "outputs (calculate_field_and_potential_heap h a G R) =
      Inr (calculate_field_and_potential cs G R)"
    if rc: "read_charges h a = Some cs" for cs
  proof -
    from rc obtain items where la: "lookup h a = Some (PyList items)"
      and ds: "map (dict_at h) items = map Some cs"
      by (auto simp add: read_charges_def those_map_Some split: option.splits pyobj.splits)
    have a: "a < length h" using la by (rule lookup_Some_less)
    have it: "\<forall>b\<in>set items. b < length h"
    proof
      fix b assume "b \<in> set items"
      then have "dict_at h b \<in> set (map Some cs)" using ds by (metis image_eqI set_map)
      then show "b < length h"
        by (auto simp add: dict_at_def lookup_def split: if_splits)
    qed
    have ds7: "map (dict_at g7) items = map Some cs"
      using it ds old7 by (simp add: dict_at_def cong: map_cong)
    have n: "length h \<le> length g4" "length h \<le> length g5" "length h \<le> length g6"
      by (simp_all add: len)
    have d: "length g4 \<noteq> length g5" "length g4 \<noteq> length g6" "length g5 \<noteq> length g6"
      "length g2 \<noteq> length g4" "length g2 \<noteq> length g5" "length g2 \<noteq> length g6"
      "length g3 \<noteq> length g4" "length g3 \<noteq> length g5" "length g3 \<noteq> length g6"
      by (simp_all add: len)
    obtain B1 B2 B3 where
      B: "fold (charge_step MX MY) cs (zeros (shape MX), zeros (shape MY), zeros (shape MX)) =
        (B1, B2, B3)"
      by (metis prod_cases3)
    let ?h = "snd (charge_loop g7 (length g2) (length g3) (length g4) (length g5) (length g6) items)"
    from charge_loop_effect [OF ds7 it n d e7] B
    have r: "fst (charge_loop g7 (length g2) (length g3) (length g4) (length g5) (length g6) items) = None"
      "lookup ?h (length g2) = Some (NDArray MX)" "lookup ?h (length g3) = Some (NDArray MY)"
      "lookup ?h (length g4) = Some (NDArray B1)" "lookup ?h (length g5) = Some (NDArray B2)"
      "lookup ?h (length g6) = Some (NDArray B3)"
      by simp_all
    have v: "calculate_field_and_potential cs G R = (MX, MY, B1, B2, B3)"
      using B by (simp add: calculate_field_and_potential_def Let_def MX_def MY_def xs_def
          case_prod_beta)
    obtain hL where L: "charge_loop g7 (length g2) (length g3) (length g4) (length g5)
        (length g6) items = (None, hL)"
      using r(1) by (metis prod.collapse)
    have rL: "lookup hL (length g2) = Some (NDArray MX)" "lookup hL (length g3) = Some (NDArray MY)"
      "lookup hL (length g4) = Some (NDArray B1)" "lookup hL (length g5) = Some (NDArray B2)"
      "lookup hL (length g6) = Some (NDArray B3)"
      using r(2-6) by (simp_all add: L)
    show ?thesis
      unfolding steps v
      by (simp add: old7 [OF a] la L outputs_def res_def array_at_def rL)
  qed
  show ?thesis using frame effect by blast
qed

lemma read_charges_frame:
  assumes "\<forall>b<length h. lookup h' b = lookup h b" and "read_charges h a = Some cs"
  shows "read_charges h' a = Some cs"
proof -
  from assms(2) obtain items where la: "lookup h a = Some (PyList items)"
    and ds: "map (dict_at h) items = map Some cs"
    by (auto simp add: read_charges_def those_map_Some split: option.splits pyobj.splits)
  have a: "a < length h" using la by (rule lookup_Some_less)
  have "b < length h" if "b \<in> set items" for b
  proof -
    from that have "dict_at h b \<in> set (map Some cs)" using ds by (metis image_eqI set_map)
    then show ?thesis by (auto simp add: dict_at_def lookup_def split: if_splits)
  qed
  then have "map (dict_at h') items = map (dict_at h) items"
    using assms(1) by (simp add: dict_at_def cong: map_cong)
  then show ?thesis
    using assms(1) a la ds by (simp add: read_charges_def those_map_Some)
qed

text \<open>
  Claim C7. \<open>calculate_field_and_potential\<close> is deterministic and pure: on any heap that
  holds the charge list, whatever else the heap holds, the returned arrays are the value of
  one function of the charges, the grid size and the range alone, no error is raised, and
  every object that existed before the call is left as it was.
\<close>

theorem evaluator_pure:
  "read_charges h a = Some cs \<Longrightarrow>
   outputs (calculate_field_and_potential_heap h a G R) =
     Inr (calculate_field_and_potential cs G R) \<and>
   (\<forall>b<length h. lookup (snd (calculate_field_and_potential_heap h a G R)) b = lookup h b)"
  using calculate_heap_main [of h a G R] by blast

theorem evaluator_pure_witness:
  "outputs (calculate_field_and_potential_heap
     [Dict \<lparr>charge_q = 1, charge_x = - 2, charge_y = 0\<rparr>,
      Dict \<lparr>charge_q = - 1, charge_x = 2, charge_y = 0\<rparr>, PyList [0, 1]] 2 3 5) =
   Inr (calculate_field_and_potential
     [\<lparr>charge_q = 1, charge_x = - 2, charge_y = 0\<rparr>,
      \<lparr>charge_q = - 1, charge_x = 2, charge_y = 0\<rparr>] 3 5)"
  using evaluator_pure [of "[Dict \<lparr>charge_q = 1, charge_x = - 2, charge_y = 0\<rparr>,
      Dict \<lparr>charge_q = - 1, charge_x = 2, charge_y = 0\<rparr>, PyList [0, 1]]" 2
      "[\<lparr>charge_q = 1, charge_x = - 2, charge_y = 0\<rparr>,
        \<lparr>charge_q = - 1, charge_x = 2, charge_y = 0\<rparr>]" 3 5]
  by (simp add: read_charges_def dict_at_def lookup_def)

text \<open>
  Claim C10. The call never modifies its \<open>charges\<close> argument: whether it returns or
  raises, the list object is the same afterwards, so is every object the list refers to,
  and a caller reads the same charges from it.
\<close>

theorem charges_unmodified:
  "(a < length h \<longrightarrow>
      lookup (snd (calculate_field_and_potential_heap h a G R)) a = lookup h a) \<and>
   (\<forall>items. lookup h a = Some (PyList items) \<longrightarrow>
      (\<forall>b\<in>set items. b < length h \<longrightarrow>
         lookup (snd (calculate_field_and_potential_heap h a G R)) b = lookup h b)) \<and>
   (\<forall>cs. read_charges h a = Some cs \<longrightarrow>
      read_charges (snd (calculate_field_and_potential_heap h a G R)) a = Some cs)"
proof -
  have fr: "\<forall>b<length h.
      lookup (snd (calculate_field_and_potential_heap h a G R)) b = lookup h b"
    using calculate_heap_main [of h a G R] by blast
  then show ?thesis using read_charges_frame [OF fr] by blast
qed

theorem charges_unmodified_witness:
  "lookup (snd (calculate_field_and_potential_heap
     [Dict \<lparr>charge_q = 1, charge_x = - 2, charge_y = 0\<rparr>,
      Dict \<lparr>charge_q = - 1, charge_x = 2, charge_y = 0\<rparr>, PyList [0, 1]] 2 3 5)) 2 = Some (PyList [0, 1]) \<and>
   lookup (snd (calculate_field_and_potential_heap
     [Dict \<lparr>charge_q = 1, charge_x = - 2, charge_y = 0\<rparr>,
      Dict \<lparr>charge_q = - 1, charge_x = 2, charge_y = 0\<rparr>, PyList [0, 1]] 2 3 5)) 0 =
     Some (Dict \<lparr>charge_q = 1, charge_x = - 2, charge_y = 0\<rparr>) \<and>
   read_charges (snd (calculate_field_and_potential_heap
     [Dict \<lparr>charge_q = 1, charge_x = - 2, charge_y = 0\<rparr>,
      Dict \<lparr>charge_q = - 1, charge_x = 2, charge_y = 0\<rparr>, PyList [0, 1]] 2 3 5)) 2 =
     Some [\<lparr>charge_q = 1, charge_x = - 2, charge_y = 0\<rparr>,
           \<lparr>charge_q = - 1, charge_x = 2, charge_y = 0\<rparr>]"
  using charges_unmodified [of 2 "[Dict \<lparr>charge_q = 1, charge_x = - 2, charge_y = 0\<rparr>,
      Dict \<lparr>charge_q = - 1, charge_x = 2, charge_y = 0\<rparr>, PyList [0, 1]]" 3 5]
  by (simp add: read_charges_def dict_at_def lookup_def)

subsection \<open>The sidebar's defaults\<close>

text \<open>
  Claim C8. While the user has set nothing, the charges form a dipole: the first has
  \<open>x = -2\<close> and \<open>q = +1\<close>, the second \<open>x = +2\<close> and \<open>q = -1\<close>, every further one \<open>x = 0\<close>
  and \<open>q = +1\<close>, and \<open>y = 0\<close> for all of them.
\<close>

theorem default_charges:
  "(0 < n \<longrightarrow> charges Map.empty n ! 0 = \<lparr>charge_q = 1, charge_x = - 2, charge_y = 0\<rparr>) \<and>
   (1 < n \<longrightarrow> charges Map.empty n ! 1 = \<lparr>charge_q = - 1, charge_x = 2, charge_y = 0\<rparr>) \<and>
   (\<forall>i. 2 \<le> i \<and> i < n \<longrightarrow> charges Map.empty n ! i = \<lparr>charge_q = 1, charge_x = 0, charge_y = 0\<rparr>)"
  by (simp add: charges_def slider_def number_input_def default_x_def default_q_def)

theorem default_charges_witness:
  "charges Map.empty 5 =
     [\<lparr>charge_q = 1, charge_x = - 2, charge_y = 0\<rparr>,
      \<lparr>charge_q = - 1, charge_x = 2, charge_y = 0\<rparr>,
      \<lparr>charge_q = 1, charge_x = 0, charge_y = 0\<rparr>,
      \<lparr>charge_q = 1, charge_x = 0, charge_y = 0\<rparr>,
      \<lparr>charge_q = 1, charge_x = 0, charge_y = 0\<rparr>]"
proof -
  have "length (charges Map.empty 5) = 5" by (simp add: charges_def)
  then show ?thesis
    using default_charges [of 5]
    by (auto simp add: list_eq_iff_nth_eq less_Suc_eq numeral_nat)
qed

end
